theory Spec2Isabelle
  imports Main "HOL-Library.Word" "HOL-Library.AList"
begin

section \<open>The debug stats handler: data model\<close>

text \<open>
  The handler of the \<open>micro debug stats\<close> service keeps three pieces of state behind one
  read/write lock: the current snapshot batch, a ring of past batches and the cached list
  of registry services. The registry and the RPC client are collaborators; what they
  answer at one moment is a parameter of the operation that asks them.
\<close>

type_synonym uint64 = "64 word"

text \<open>Go's \<open>int64\<close>: the same 64 bits, read with \<open>sint\<close>.\<close>

type_synonym int64 = "64 word"

text \<open>\<open>registry.Node\<close> and \<open>registry.Service\<close>, with the fields the handler reads.\<close>

record RegistryNode =
  node_Id :: string
  node_Address :: string
  node_Metadata :: "(string \<times> string) list"

record RegistryService =
  service_Name :: string
  service_Version :: string
  service_Nodes :: "RegistryNode list"

text \<open>
  \<open>stats.Node\<close>, \<open>stats.Service\<close> and \<open>stats.Snapshot\<close> of the handler's own proto. The
  \<open>Service\<close> and \<open>Node\<close> of a snapshot are pointers in Go; \<open>scrape\<close>, the only producer of
  snapshots, always sets both.
\<close>

record StatsNode =
  stats_Id :: string
  stats_Address :: string

record StatsService =
  stats_Name :: string
  stats_Version :: string
  stats_Node :: StatsNode

record Snapshot =
  snap_Service :: StatsService
  Started :: int64
  Uptime :: uint64
  Memory :: uint64
  Threads :: uint64
  Gc :: uint64
  Requests :: uint64
  Errors :: uint64
  Timestamp :: uint64

text \<open>\<open>debug.StatsResponse\<close>: what a node answers to \<open>Debug.Stats\<close>.\<close>

record StatsResponse =
  rsp_Started :: uint64
  rsp_Uptime :: uint64
  rsp_Memory :: uint64
  rsp_Threads :: uint64
  rsp_Gc :: uint64
  rsp_Requests :: uint64
  rsp_Errors :: uint64

text \<open>
  Errors as values. \<open>BadRequest id detail\<close> is what \<open>errors.BadRequest\<close> builds (code 400);
  \<open>RegistryError\<close> and \<open>CallError\<close> stand for whatever the registry or the client report.
\<close>

datatype error =
  BadRequest string string
| RegistryError string
| CallError string

subsection \<open>The history ring\<close>

text \<open>
  Modelled from the spec: the ring buffer (\<open>ring.Buffer\<close> with \<open>ring.New\<close>, \<open>Put\<close> and
  \<open>Get\<close>) is a library the handler imports; its code is not among the sources. The
  specification describes it as a sequence of fixed capacity: \<open>Put\<close> inserts the newest
  batch and overwrites the oldest once the ring is full; \<open>Get n\<close> returns up to \<open>n\<close> most
  recent batches, oldest of the window first, and all of them when fewer than \<open>n\<close> are
  recorded. The capacity is a natural number, fixed at construction.
\<close>

record 'a Entry =
  Value :: 'a

record 'a Buffer =
  capacity :: nat
  vals :: "'a Entry list"

definition ring_New :: "nat \<Rightarrow> 'a Buffer" where
  "ring_New i = \<lparr>capacity = i, vals = []\<rparr>"

definition Put :: "'a Buffer \<Rightarrow> 'a \<Rightarrow> 'a Buffer" where
  "Put b v =
     (let vs = vals b @ [\<lparr>Value = v\<rparr>]
      in if length vs > capacity b then b\<lparr>vals := tl vs\<rparr> else b\<lparr>vals := vs\<rparr>)"

definition Get :: "'a Buffer \<Rightarrow> nat \<Rightarrow> 'a Entry list" where
  "Get b n =
     (let m = (if n > length (vals b) then length (vals b) else n)
      in drop (length (vals b) - m) (vals b))"

subsection \<open>The handler's state and its collaborators\<close>

record Stats =
  snapshots :: "Snapshot list"
  historicalSnapshots :: "Snapshot list Buffer"
  cached :: "RegistryService list"

text \<open>The registry at one moment: the answers of \<open>ListServices\<close> and \<open>GetService\<close>.\<close>

record Registry =
  ListServices :: "error + RegistryService list"
  GetService :: "string \<Rightarrow> error + RegistryService list"

text \<open>
  The client and the clock during one scrape: \<open>client_String\<close> is the client's protocol
  name, \<open>client_Call name address\<close> the outcome of calling \<open>Debug.Stats\<close> of service
  \<open>name\<close> at \<open>address\<close> (an error covers timeout, transport and remote failure), and
  \<open>time_Now name address\<close> what \<open>time.Now().Unix()\<close> reads in the goroutine of that call.
\<close>

record Client =
  client_String :: string
  client_Call :: "string \<Rightarrow> string \<Rightarrow> error + StatsResponse"
  time_Now :: "string \<Rightarrow> string \<Rightarrow> int64"

text \<open>The requests and the response of \<open>Read\<close>; a request's \<open>Service\<close> may be nil.\<close>

record ReadRequest =
  req_Service :: "StatsService option"
  req_Past :: bool

record ReadResponse =
  rsp_Stats :: "Snapshot list"

section \<open>Directory refresh: \<open>scan\<close>\<close>

text \<open>
  \<open>serviceMap\<close> is a Go map from \<open>string\<close> to service. It is an association list with
  one pair per key here; a stored key keeps its place and a new key goes last. Go leaves
  the iteration order of a map open, so the order of the flattened list is one of the
  orders the program may produce.
\<close>

type_synonym serviceMap = "(string \<times> RegistryService) list"

text \<open>The inner loop over \<open>newServices\<close>: store each service by name and version.\<close>

fun store_services :: "serviceMap \<Rightarrow> RegistryService list \<Rightarrow> serviceMap" where
  "store_services m [] = m"
| "store_services m (service # rest) =
     store_services
       (AList.update (service_Name service @ service_Version service) service m) rest"

text \<open>The loop over \<open>services\<close>: check each service has nodes.\<close>

fun scan_loop :: "Registry \<Rightarrow> serviceMap \<Rightarrow> RegistryService list \<Rightarrow> serviceMap" where
  "scan_loop reg m [] = m"
| "scan_loop reg m (service # rest) =
     (if length (service_Nodes service) > 0
      then scan_loop reg
             (AList.update (service_Name service @ service_Version service) service m) rest
      else (case GetService reg (service_Name service) of
              Inl err \<Rightarrow> scan_loop reg m rest
            | Inr newServices \<Rightarrow> scan_loop reg (store_services m newServices) rest))"

text \<open>Flatten the map.\<close>

definition flatten :: "serviceMap \<Rightarrow> RegistryService list" where
  "flatten m = map snd m"

text \<open>\<open>scan\<close> returns the error (or none) and the handler's state after the call.\<close>

definition scan :: "Stats \<Rightarrow> Registry \<Rightarrow> error option \<times> Stats" where
  "scan s reg =
     (case ListServices reg of
        Inl err \<Rightarrow> (Some err, s)
      | Inr services \<Rightarrow> (None, s\<lparr>cached := flatten (scan_loop reg [] services)\<rparr>))"

section \<open>One scrape tick: \<open>scrape\<close>\<close>

text \<open>\<open>node.Metadata[key]\<close>: a Go map lookup, the empty string for a missing key.\<close>

definition metadata_get :: "(string \<times> string) list \<Rightarrow> string \<Rightarrow> string" where
  "metadata_get md key = (case map_of md key of None \<Rightarrow> [] | Some v \<Rightarrow> v)"

text \<open>
  The two nested loops launch one goroutine per node whose protocol is the client's:
  \<open>launch\<close> lists the (service, node) pairs a goroutine is started for, in loop order.
\<close>

fun launch_nodes ::
  "string \<Rightarrow> RegistryService \<Rightarrow> RegistryNode list \<Rightarrow> (RegistryService \<times> RegistryNode) list"
where
  "launch_nodes protocol svc [] = []"
| "launch_nodes protocol svc (node # rest) =
     (if metadata_get (node_Metadata node) ''protocol'' \<noteq> protocol
      then launch_nodes protocol svc rest
      else (svc, node) # launch_nodes protocol svc rest)"

fun launch ::
  "string \<Rightarrow> RegistryService list \<Rightarrow> (RegistryService \<times> RegistryNode) list"
where
  "launch protocol [] = []"
| "launch protocol (svc # rest) =
     (if length (service_Nodes svc) = 0
      then launch protocol rest
      else launch_nodes protocol svc (service_Nodes svc) @ launch protocol rest)"

text \<open>
  What a tick does to the network is the list of calls it issues: each \<open>client.Call\<close>
  adds the service name and the node address it is sent to, in the order issued.
\<close>

type_synonym call_log = "(string \<times> string) list"

definition Call ::
  "Client \<Rightarrow> call_log \<Rightarrow> string \<Rightarrow> string \<Rightarrow> call_log \<times> (error + StatsResponse)"
where
  "Call c log name address = (log @ [(name, address)], client_Call c name address)"

text \<open>
  The body of one goroutine: a single \<open>Call\<close>; on an error it returns with nothing, on an
  answer it builds the snapshot and stamps it with the clock. \<open>int64(rsp.Started)\<close> and
  \<open>uint64(timestamp)\<close> keep the 64 bits as they are.
\<close>

definition goroutine ::
  "Client \<Rightarrow> call_log \<Rightarrow> RegistryService \<Rightarrow> RegistryNode \<Rightarrow> call_log \<times> Snapshot option"
where
  "goroutine c log service node =
     (case Call c log (service_Name service) (node_Address node) of
        (log', Inl err) \<Rightarrow> (log', None)
      | (log', Inr rsp) \<Rightarrow>
          (let snap = \<lparr>snap_Service =
                        \<lparr>stats_Name = service_Name service,
                         stats_Version = service_Version service,
                         stats_Node = \<lparr>stats_Id = node_Id node,
                                       stats_Address = node_Address node\<rparr>\<rparr>,
                      Started = rsp_Started rsp,
                      Uptime = rsp_Uptime rsp,
                      Memory = rsp_Memory rsp,
                      Threads = rsp_Threads rsp,
                      Gc = rsp_Gc rsp,
                      Requests = rsp_Requests rsp,
                      Errors = rsp_Errors rsp,
                      Timestamp = 0\<rparr>;
               timestamp = time_Now c (service_Name service) (node_Address node)
           in (log', Some (snap\<lparr>Timestamp := timestamp\<rparr>))))"

text \<open>
  The goroutines append to \<open>next\<close> under the mutex in whatever order they finish; the
  launch order is one such order. \<open>wg.Wait\<close> returns when all of them are done.
\<close>

fun wait_all ::
  "Client \<Rightarrow> (RegistryService \<times> RegistryNode) list \<Rightarrow> call_log \<times> Snapshot list \<Rightarrow>
   call_log \<times> Snapshot list"
where
  "wait_all c [] (log, next) = (log, next)"
| "wait_all c ((service, node) # rest) (log, next) =
     (case goroutine c log service node of
        (log', None) \<Rightarrow> wait_all c rest (log', next)
      | (log', Some snap) \<Rightarrow> wait_all c rest (log', next @ [snap]))"

text \<open>\<open>scrape\<close> with the calls it issued: the call log of the tick and the state after it.\<close>

definition scrape_calls :: "Stats \<Rightarrow> Client \<Rightarrow> call_log \<times> Stats" where
  "scrape_calls s c =
     (let services = cached s;
          protocol = client_String c;
          (log, next) = wait_all c (launch protocol services) ([], [])
      in (log, s\<lparr>snapshots := next,
                 historicalSnapshots := Put (historicalSnapshots s) next\<rparr>))"

text \<open>\<open>scrape\<close> as the handler sees it: the state after the tick.\<close>

definition scrape :: "Stats \<Rightarrow> Client \<Rightarrow> Stats" where
  "scrape s c = snd (scrape_calls s c)"

section \<open>The query handlers\<close>

text \<open>The loop over the ring's entries in \<open>Read\<close>: append each entry's batch.\<close>

fun append_entries :: "Snapshot list \<Rightarrow> Snapshot list Entry list \<Rightarrow> Snapshot list" where
  "append_entries allSnapshots [] = allSnapshots"
| "append_entries allSnapshots (entry # rest) =
     append_entries (allSnapshots @ Value entry) rest"

text \<open>The part of \<open>Read\<close> under the read lock: choose the source of the snapshots.\<close>

definition all_snapshots :: "Stats \<Rightarrow> ReadRequest \<Rightarrow> Snapshot list" where
  "all_snapshots s req =
     (if req_Past req
      then append_entries [] (Get (historicalSnapshots s) 3600)
      else [] @ snapshots s)"

text \<open>The closure \<open>filter\<close> of \<open>Read\<close>.\<close>

definition filter_str :: "string \<Rightarrow> string \<Rightarrow> bool" where
  "filter_str a b = (if length b = 0 then True else a = b)"

fun filter_loop :: "StatsService \<Rightarrow> Snapshot list \<Rightarrow> Snapshot list \<Rightarrow> Snapshot list" where
  "filter_loop f filteredSnapshots [] = filteredSnapshots"
| "filter_loop f filteredSnapshots (s # rest) =
     (if \<not> filter_str (stats_Name (snap_Service s)) (stats_Name f)
      then filter_loop f filteredSnapshots rest
      else if \<not> filter_str (stats_Version (snap_Service s)) (stats_Version f)
      then filter_loop f filteredSnapshots rest
      else filter_loop f (filteredSnapshots @ [s]) rest)"

text \<open>
  \<open>Read\<close> returns the error (or none), the response with \<open>Stats\<close> set and the handler's
  state, which it only reads.
\<close>

definition Read ::
  "Stats \<Rightarrow> ReadRequest \<Rightarrow> ReadResponse \<Rightarrow> error option \<times> ReadResponse \<times> Stats"
where
  "Read s req rsp =
     (let allSnapshots = all_snapshots s req
      in case req_Service req of
           None \<Rightarrow> (None, rsp\<lparr>rsp_Stats := allSnapshots\<rparr>, s)
         | Some f \<Rightarrow> (None, rsp\<lparr>rsp_Stats := filter_loop f [] allSnapshots\<rparr>, s))"

text \<open>\<open>Write\<close> and \<open>Stream\<close> look at neither the request nor the response.\<close>

definition Write :: "Stats \<Rightarrow> 'req \<Rightarrow> 'rsp \<Rightarrow> error option \<times> Stats" where
  "Write s req rsp = (Some (BadRequest ''go.micro.debug.stats'' ''not implemented''), s)"

definition Stream :: "Stats \<Rightarrow> 'req \<Rightarrow> 'rsp \<Rightarrow> error option \<times> Stats" where
  "Stream s req rsp = (Some (BadRequest ''go.micro.debug.stats'' ''not implemented''), s)"

section \<open>Construction and the background loops\<close>

text \<open>
  \<open>New\<close> builds the handler with an empty ring of \<open>windowSize\<close> slots and scans once; it
  fails when that scan fails. \<open>windowSize\<close> is an \<open>int\<close> in Go; the ring's capacity is a
  natural number, so the window sizes modelled are the ones that are not negative. \<open>Start\<close> then runs two loops, one calling \<open>scrape\<close> and one
  calling \<open>scan\<close> (whose error is only logged); what they do to the state, in the order
  the lock serialises them, is a list of events.
\<close>

definition New :: "Registry \<Rightarrow> nat \<Rightarrow> error + Stats" where
  "New reg windowSize =
     (let s = \<lparr>snapshots = [], historicalSnapshots = ring_New windowSize, cached = []\<rparr>
      in case scan s reg of
           (Some err, s') \<Rightarrow> Inl err
         | (None, s') \<Rightarrow> Inr s')"

datatype event = Tick Client | Refresh Registry

fun step :: "Stats \<Rightarrow> event \<Rightarrow> Stats" where
  "step s (Tick c) = scrape s c"
| "step s (Refresh reg) = snd (scan s reg)"

definition run :: "Stats \<Rightarrow> event list \<Rightarrow> Stats" where
  "run s evs = foldl step s evs"

text \<open>The batches the scrape ticks of a run publish, in tick order.\<close>

fun batches :: "Stats \<Rightarrow> event list \<Rightarrow> Snapshot list list" where
  "batches s [] = []"
| "batches s (Tick c # evs) = snapshots (scrape s c) # batches (scrape s c) evs"
| "batches s (Refresh reg # evs) = batches (snd (scan s reg)) evs"

section \<open>Invariants\<close>

text \<open>Every pair of \<open>serviceMap\<close> is stored under the name and version of its service.\<close>

definition keyed :: "serviceMap \<Rightarrow> bool" where
  "keyed m = (\<forall>(k, v) \<in> set m. k = service_Name v @ service_Version v)"

text \<open>
  The ring holds the last \<open>capacity\<close> of the values put into it, where \<open>puts\<close> lists all
  of them, oldest first.
\<close>

definition ring_inv :: "'a Buffer \<Rightarrow> 'a list \<Rightarrow> bool" where
  "ring_inv b puts = (map Value (vals b) = drop (length puts - capacity b) puts)"

section \<open>Concrete scenarios\<close>

text \<open>Registries, nodes, services, clients and states the theorems below are run on.\<close>

definition reg_down :: Registry where
  "reg_down = \<lparr>ListServices = Inl (RegistryError ''registry down''),
               GetService = (\<lambda>name. Inl (RegistryError ''registry down''))\<rparr>"

definition node_a1 :: RegistryNode where
  "node_a1 = \<lparr>node_Id = ''a-1'', node_Address = ''10.0.0.1:80'',
              node_Metadata = [(''protocol'', ''mucp'')]\<rparr>"

definition node_a2 :: RegistryNode where
  "node_a2 = \<lparr>node_Id = ''a-2'', node_Address = ''10.0.0.2:80'',
              node_Metadata = [(''protocol'', ''mucp'')]\<rparr>"

definition svc_a :: RegistryService where
  "svc_a = \<lparr>service_Name = ''svcA'', service_Version = ''v1'',
            service_Nodes = [node_a1, node_a2]\<rparr>"

definition state0 :: Stats where
  "state0 = \<lparr>snapshots = [], historicalSnapshots = ring_New 3, cached = [svc_a]\<rparr>"

definition mk_snapshot :: "string \<Rightarrow> string \<Rightarrow> string \<Rightarrow> string \<Rightarrow> Snapshot" where
  "mk_snapshot name version ident address =
     \<lparr>snap_Service = \<lparr>stats_Name = name, stats_Version = version,
                      stats_Node = \<lparr>stats_Id = ident, stats_Address = address\<rparr>\<rparr>,
      Started = 1500000000, Uptime = 42, Memory = 1024, Threads = 8, Gc = 3,
      Requests = 100, Errors = 1, Timestamp = 1600000000\<rparr>"

definition snap_v1 :: Snapshot where
  "snap_v1 = mk_snapshot ''svcA'' ''v1'' ''a-1'' ''10.0.0.1:80''"

definition snap_v2 :: Snapshot where
  "snap_v2 = mk_snapshot ''svcA'' ''v2'' ''a-3'' ''10.0.0.3:80''"

definition snap_b :: Snapshot where
  "snap_b = mk_snapshot ''svcB'' ''v1'' ''b-1'' ''10.0.0.4:80''"

definition state_q :: Stats where
  "state_q = \<lparr>snapshots = [snap_v1, snap_v2, snap_b],
              historicalSnapshots =
                \<lparr>capacity = 3,
                 vals = [\<lparr>Value = [snap_v1]\<rparr>, \<lparr>Value = [snap_v1, snap_v2, snap_b]\<rparr>]\<rparr>,
              cached = []\<rparr>"

definition read_req :: "string \<Rightarrow> string \<Rightarrow> bool \<Rightarrow> ReadRequest" where
  "read_req name version past =
     \<lparr>req_Service = Some \<lparr>stats_Name = name, stats_Version = version,
                           stats_Node = \<lparr>stats_Id = [], stats_Address = []\<rparr>\<rparr>,
      req_Past = past\<rparr>"

definition svc_x :: RegistryService where
  "svc_x = \<lparr>service_Name = ''svc1'', service_Version = ''0'', service_Nodes = [node_a1]\<rparr>"

definition svc_y :: RegistryService where
  "svc_y = \<lparr>service_Name = ''svc'', service_Version = ''10'', service_Nodes = [node_a2]\<rparr>"

definition reg_clash :: Registry where
  "reg_clash = \<lparr>ListServices = Inr [svc_x, svc_y],
                GetService = (\<lambda>name. Inl (RegistryError ''not found''))\<rparr>"

definition svc_b :: RegistryService where
  "svc_b = \<lparr>service_Name = ''svcB'', service_Version = ''v1'', service_Nodes = []\<rparr>"

definition svc_b_old :: RegistryService where
  "svc_b_old = \<lparr>service_Name = ''svcB'', service_Version = ''v1'', service_Nodes = [node_a2]\<rparr>"

definition reg_partial :: Registry where
  "reg_partial = \<lparr>ListServices = Inr [svc_a, svc_b],
                  GetService = (\<lambda>name. Inl (RegistryError ''not found''))\<rparr>"

definition state_old :: Stats where
  "state_old = \<lparr>snapshots = [snap_b], historicalSnapshots = ring_New 3, cached = [svc_b_old]\<rparr>"

definition rsp_ok :: StatsResponse where
  "rsp_ok = \<lparr>rsp_Started = 1500000000, rsp_Uptime = 42, rsp_Memory = 1024, rsp_Threads = 8,
             rsp_Gc = 3, rsp_Requests = 100, rsp_Errors = 1\<rparr>"

definition client_partial :: Client where
  "client_partial =
     \<lparr>client_String = ''mucp'',
      client_Call = (\<lambda>name address.
         if address = ''10.0.0.1:80'' then Inr rsp_ok else Inl (CallError ''timeout'')),
      time_Now = (\<lambda>name address. 1600000000)\<rparr>"

definition client_dead :: Client where
  "client_dead =
     \<lparr>client_String = ''mucp'',
      client_Call = (\<lambda>name address. Inl (CallError ''connection refused'')),
      time_Now = (\<lambda>name address. 1600000000)\<rparr>"

definition reg_ok :: Registry where
  "reg_ok = \<lparr>ListServices = Inr [svc_a],
             GetService = (\<lambda>name. Inl (RegistryError ''not found''))\<rparr>"

section \<open>Properties of the directory refresh\<close>

text \<open>
  Claim C2. When the registry's \<open>ListServices\<close> fails, \<open>scan\<close> returns that error and the
  handler's state, the cached directory included, is what it was before the call.
\<close>

theorem scan_list_error_keeps_state:
  assumes "ListServices reg = Inl err"
  shows "scan s reg = (Some err, s) \<and> cached (snd (scan s reg)) = cached s"
  using assms by (simp add: scan_def)

theorem scan_list_error_keeps_state_witness:
  "ListServices reg_down = Inl (RegistryError ''registry down'') \<and>
   scan state0 reg_down = (Some (RegistryError ''registry down''), state0) \<and>
   cached (snd (scan state0 reg_down)) = [svc_a]"
proof -
  have h: "ListServices reg_down = Inl (RegistryError ''registry down'')"
    by (simp add: reg_down_def)
  from scan_list_error_keeps_state [OF h, of state0] h show ?thesis
    by (simp add: state0_def)
qed

text \<open>
  The keys of \<open>serviceMap\<close> stay distinct and every service sits under its own key, so the
  flattened directory never holds two services of one name and version.
\<close>

lemma set_update_subset: "set (AList.update k v al) \<subseteq> insert (k, v) (set al)"
  by (induction al) auto

lemma keyed_update:
  "keyed m \<Longrightarrow> keyed (AList.update (service_Name v @ service_Version v) v m)"
  using set_update_subset [of "service_Name v @ service_Version v" v m]
  by (auto simp: keyed_def)

lemma store_services_inv:
  "distinct (map fst m) \<and> keyed m \<Longrightarrow>
   distinct (map fst (store_services m xs)) \<and> keyed (store_services m xs)"
  by (induction xs arbitrary: m) (simp_all add: distinct_update keyed_update)

lemma scan_loop_inv:
  "distinct (map fst m) \<and> keyed m \<Longrightarrow>
   distinct (map fst (scan_loop reg m xs)) \<and> keyed (scan_loop reg m xs)"
proof (induction xs arbitrary: m)
  case Nil
  then show ?case by simp
next
  case (Cons x xs)
  show ?case
  proof (cases "length (service_Nodes x) > 0")
    case True
    with Cons show ?thesis by (simp add: distinct_update keyed_update)
  next
    case False
    with Cons show ?thesis
      by (cases "GetService reg (service_Name x)") (simp_all add: store_services_inv)
  qed
qed

lemma keyed_keys: "keyed m \<Longrightarrow> map (\<lambda>v. service_Name v @ service_Version v) (map snd m) = map fst m"
  by (induction m) (auto simp: keyed_def)

lemma distinct_pairs:
  "distinct (map (\<lambda>v. service_Name v @ service_Version v) xs) \<Longrightarrow>
   distinct (map (\<lambda>v. (service_Name v, service_Version v)) xs)"
  by (induction xs) auto

theorem scan_one_entry_per_identity:
  assumes "ListServices reg = Inr services"
  shows "distinct (map (\<lambda>v. service_Name v @ service_Version v) (cached (snd (scan s reg)))) \<and>
         distinct (map (\<lambda>v. (service_Name v, service_Version v)) (cached (snd (scan s reg))))"
proof -
  have "distinct (map fst (scan_loop reg [] services)) \<and> keyed (scan_loop reg [] services)"
    by (rule scan_loop_inv) (simp add: keyed_def)
  then have "distinct (map (\<lambda>v. service_Name v @ service_Version v)
                (flatten (scan_loop reg [] services)))"
    unfolding flatten_def using keyed_keys [of "scan_loop reg [] services"] by metis
  with assms show ?thesis by (simp add: scan_def distinct_pairs)
qed

text \<open>
  Claim C1. The refresh is meant to keep services of different name and version apart.
  The key is the name followed by the version with nothing between them, so \<open>svc1\<close> at
  version \<open>0\<close> and \<open>svc\<close> at version \<open>10\<close> share the key \<open>svc10\<close>: listed together, only
  the later one is in the directory.
\<close>

theorem scan_collapses_distinct_identities:
  "(service_Name svc_x, service_Version svc_x) \<noteq> (service_Name svc_y, service_Version svc_y) \<and>
   ListServices reg_clash = Inr [svc_x, svc_y] \<and>
   scan state0 reg_clash = (None, state0\<lparr>cached := [svc_y]\<rparr>)"
  by (simp add: svc_x_def svc_y_def reg_clash_def scan_def flatten_def node_a1_def node_a2_def)

text \<open>A nodeless service whose lookup fails leaves the map as it was.\<close>

lemma scan_loop_skips_failed:
  "scan_loop reg m services =
   scan_loop reg m
     (filter (\<lambda>svc. \<not> (length (service_Nodes svc) = 0 \<and> isl (GetService reg (service_Name svc))))
        services)"
  by (induction services arbitrary: m) (auto split: sum.splits)

text \<open>
  Claim C10. When \<open>ListServices\<close> succeeds, \<open>scan\<close> returns no error and replaces the
  cached directory, also when a follow-up \<open>GetService\<close> fails. The new directory is the
  one the list gives with every nodeless service of a failed lookup left out, and it
  does not depend on the directory cached before.
\<close>

theorem scan_failed_lookup_omitted:
  assumes "ListServices reg = Inr services"
  shows "fst (scan s reg) = None \<and>
    snd (scan s reg) = s\<lparr>cached := flatten (scan_loop reg [] services)\<rparr> \<and>
    cached (snd (scan s reg)) =
      flatten (scan_loop reg []
        (filter (\<lambda>svc. \<not> (length (service_Nodes svc) = 0 \<and>
                            isl (GetService reg (service_Name svc)))) services)) \<and>
    cached (snd (scan s reg)) = cached (snd (scan s' reg))"
  using assms scan_loop_skips_failed [of reg "[]" services] by (simp add: scan_def)

theorem scan_failed_lookup_omitted_witness:
  "ListServices reg_partial = Inr [svc_a, svc_b] \<and>
   GetService reg_partial (service_Name svc_b) = Inl (RegistryError ''not found'') \<and>
   cached state_old = [svc_b_old] \<and>
   scan state_old reg_partial = (None, state_old\<lparr>cached := [svc_a]\<rparr>)"
proof -
  have h: "ListServices reg_partial = Inr [svc_a, svc_b]"
    by (simp add: reg_partial_def)
  from scan_failed_lookup_omitted [OF h, of state_old state_old] h show ?thesis
    by (simp add: reg_partial_def state_old_def svc_a_def svc_b_def flatten_def prod_eq_iff)
qed

section \<open>Properties of the scrape tick\<close>

text \<open>
  A goroutine adds its one call to the log whatever the outcome; its result does not
  depend on the log it is given.
\<close>

lemma goroutine_result:
  "snd (goroutine c [] service node) =
     (case client_Call c (service_Name service) (node_Address node) of
        Inl err \<Rightarrow> None
      | Inr rsp \<Rightarrow>
          (let snap = \<lparr>snap_Service =
                        \<lparr>stats_Name = service_Name service,
                         stats_Version = service_Version service,
                         stats_Node = \<lparr>stats_Id = node_Id node,
                                       stats_Address = node_Address node\<rparr>\<rparr>,
                      Started = rsp_Started rsp,
                      Uptime = rsp_Uptime rsp,
                      Memory = rsp_Memory rsp,
                      Threads = rsp_Threads rsp,
                      Gc = rsp_Gc rsp,
                      Requests = rsp_Requests rsp,
                      Errors = rsp_Errors rsp,
                      Timestamp = 0\<rparr>;
               timestamp = time_Now c (service_Name service) (node_Address node)
           in Some (snap\<lparr>Timestamp := timestamp\<rparr>)))"
  by (simp add: goroutine_def Call_def Let_def split: sum.splits)

lemma goroutine_log:
  "fst (goroutine c log svc node) = log @ [(service_Name svc, node_Address node)]"
  by (simp add: goroutine_def Call_def Let_def split: sum.splits)

lemma goroutine_eq:
  "goroutine c log svc node =
     (log @ [(service_Name svc, node_Address node)], snd (goroutine c [] svc node))"
  by (simp add: goroutine_def Call_def Let_def split: sum.splits)

lemma wait_all_Cons_gen:
  "wait_all c ((svc, node) # rest) (log, acc) =
   wait_all c rest
     (log @ [(service_Name svc, node_Address node)],
      (case snd (goroutine c [] svc node) of None \<Rightarrow> acc | Some snap \<Rightarrow> acc @ [snap]))"
proof -
  obtain l0 r where g0: "goroutine c [] svc node = (l0, r)"
    by (cases "goroutine c [] svc node")
  have g: "goroutine c log svc node = (log @ [(service_Name svc, node_Address node)], r)"
    using goroutine_eq [of c log svc node] g0 by simp
  show ?thesis by (cases r) (simp_all add: g g0)
qed

lemma wait_all_split:
  "wait_all c ps (log, acc) =
     (log @ map (\<lambda>(svc, node). (service_Name svc, node_Address node)) ps,
      snd (wait_all c ps ([], acc)))"
proof (induction ps arbitrary: log acc)
  case Nil
  then show ?case by simp
next
  case (Cons p ps)
  obtain svc node where p: "p = (svc, node)" by (cases p)
  let ?k = "(service_Name svc, node_Address node)"
  let ?acc = "case snd (goroutine c [] svc node) of None \<Rightarrow> acc | Some snap \<Rightarrow> acc @ [snap]"
  have "wait_all c (p # ps) (log, acc) = wait_all c ps (log @ [?k], ?acc)"
    unfolding p by (rule wait_all_Cons_gen)
  also have "\<dots> = ((log @ [?k]) @ map (\<lambda>(svc, node). (service_Name svc, node_Address node)) ps,
                    snd (wait_all c ps ([], ?acc)))"
    by (rule Cons.IH)
  finally have l: "wait_all c (p # ps) (log, acc) =
      (log @ map (\<lambda>(svc, node). (service_Name svc, node_Address node)) (p # ps),
       snd (wait_all c ps ([], ?acc)))"
    by (simp add: p)
  have "wait_all c (p # ps) ([], acc) = wait_all c ps ([] @ [?k], ?acc)"
    unfolding p by (rule wait_all_Cons_gen)
  also have "\<dots> = (([] @ [?k]) @ map (\<lambda>(svc, node). (service_Name svc, node_Address node)) ps,
                    snd (wait_all c ps ([], ?acc)))"
    by (rule Cons.IH)
  finally have "snd (wait_all c (p # ps) ([], acc)) = snd (wait_all c ps ([], ?acc))"
    by simp
  with l show ?case by simp
qed

lemma wait_all_Nil [simp]: "snd (wait_all c [] ([], acc)) = acc"
  by simp

declare wait_all.simps [simp del]

lemma wait_all_Cons [simp]:
  "snd (wait_all c ((svc, node) # rest) ([], acc)) =
     (case snd (goroutine c [] svc node) of
        None \<Rightarrow> snd (wait_all c rest ([], acc))
      | Some snap \<Rightarrow> snd (wait_all c rest ([], acc @ [snap])))"
proof -
  let ?k = "(service_Name svc, node_Address node)"
  let ?acc = "case snd (goroutine c [] svc node) of None \<Rightarrow> acc | Some snap \<Rightarrow> acc @ [snap]"
  have "snd (wait_all c ((svc, node) # rest) ([], acc)) = snd (wait_all c rest ([] @ [?k], ?acc))"
    by (simp only: wait_all_Cons_gen)
  also have "\<dots> = snd (wait_all c rest ([], ?acc))"
    using wait_all_split [of c rest "[] @ [?k]" ?acc] by simp
  finally show ?thesis by (simp split: option.splits)
qed

lemma scrape_eq:
  "scrape s c =
     (let next = snd (wait_all c (launch (client_String c) (cached s)) ([], []))
      in s\<lparr>snapshots := next, historicalSnapshots := Put (historicalSnapshots s) next\<rparr>)"
  by (simp add: scrape_def scrape_calls_def Let_def split: prod.splits)

lemma scrape_calls_log:
  "fst (scrape_calls s c) =
     map (\<lambda>(svc, node). (service_Name svc, node_Address node))
       (launch (client_String c) (cached s))"
proof -
  have "fst (wait_all c (launch (client_String c) (cached s)) ([], [])) =
        map (\<lambda>(svc, node). (service_Name svc, node_Address node))
          (launch (client_String c) (cached s))"
    by (subst wait_all_split) simp
  then show ?thesis
    by (simp add: scrape_calls_def Let_def case_prod_beta)
qed

lemma goroutine_None_iff:
  "snd (goroutine c [] svc node) = None \<longleftrightarrow>
   isl (client_Call c (service_Name svc) (node_Address node))"
  by (simp add: goroutine_result Let_def split: sum.splits)

lemma goroutine_Some:
  assumes "snd (goroutine c [] svc node) = Some x"
  shows "\<exists>rsp. client_Call c (service_Name svc) (node_Address node) = Inr rsp \<and>
           Started x = rsp_Started rsp \<and>
           Timestamp x = time_Now c (service_Name svc) (node_Address node) \<and>
           stats_Name (snap_Service x) = service_Name svc \<and>
           stats_Version (snap_Service x) = service_Version svc \<and>
           stats_Id (stats_Node (snap_Service x)) = node_Id node \<and>
           stats_Address (stats_Node (snap_Service x)) = node_Address node"
  using assms by (auto simp: goroutine_result Let_def split: sum.splits)

lemma wait_all_mem_acc:
  "x \<in> set (snd (wait_all c ps ([], acc))) \<Longrightarrow>
   x \<in> set acc \<or>
   (\<exists>svc node. (svc, node) \<in> set ps \<and> snd (goroutine c [] svc node) = Some x)"
proof (induction ps arbitrary: acc)
  case Nil
  then show ?case by simp
next
  case (Cons p ps)
  obtain svc node where p: "p = (svc, node)" by (cases p)
  show ?case
  proof (cases "snd (goroutine c [] svc node)")
    case None
    with Cons.prems p have "x \<in> set (snd (wait_all c ps ([], acc)))" by simp
    from Cons.IH [OF this] show ?thesis by auto
  next
    case (Some y)
    with Cons.prems p have "x \<in> set (snd (wait_all c ps ([], acc @ [y])))" by simp
    from Cons.IH [OF this] Some p show ?thesis by auto
  qed
qed

lemma wait_all_mem:
  assumes "x \<in> set (snd (wait_all c ps ([], [])))"
  shows "\<exists>svc node. (svc, node) \<in> set ps \<and> snd (goroutine c [] svc node) = Some x"
  using wait_all_mem_acc [OF assms] by simp

lemma wait_all_length_acc:
  "length (snd (wait_all c ps ([], acc))) =
   length acc +
   length (filter (\<lambda>(svc, node). \<not> isl (client_Call c (service_Name svc) (node_Address node))) ps)"
proof (induction ps arbitrary: acc)
  case Nil
  then show ?case by simp
next
  case (Cons p ps)
  obtain svc node where p: "p = (svc, node)" by (cases p)
  show ?case
  proof (cases "snd (goroutine c [] svc node)")
    case None
    then have "isl (client_Call c (service_Name svc) (node_Address node))"
      by (simp add: goroutine_None_iff)
    with None p Cons.IH [of acc] show ?thesis by simp
  next
    case (Some y)
    then have "\<not> isl (client_Call c (service_Name svc) (node_Address node))"
      using goroutine_None_iff [of c svc node] by simp
    with Some p Cons.IH [of "acc @ [y]"] show ?thesis by simp
  qed
qed

lemma wait_all_length:
  "length (snd (wait_all c ps ([], []))) =
   length (filter (\<lambda>(svc, node). \<not> isl (client_Call c (service_Name svc) (node_Address node))) ps)"
  by (simp add: wait_all_length_acc)

lemma wait_all_all_fail:
  assumes "\<forall>(svc, node) \<in> set ps. isl (client_Call c (service_Name svc) (node_Address node))"
  shows "snd (wait_all c ps ([], acc)) = acc"
  using assms
proof (induction ps arbitrary: acc)
  case Nil
  then show ?case by simp
next
  case (Cons p ps)
  obtain svc node where p: "p = (svc, node)" by (cases p)
  with Cons.prems have "snd (goroutine c [] svc node) = None"
    by (simp add: goroutine_None_iff)
  with Cons p show ?case by simp
qed

lemma launch_nodes_eq:
  "launch_nodes p svc ns =
   map (Pair svc) (filter (\<lambda>node. metadata_get (node_Metadata node) ''protocol'' = p) ns)"
  by (induction ns) simp_all

lemma launch_eq:
  "launch p svcs =
   concat (map (\<lambda>svc. map (Pair svc)
                  (filter (\<lambda>node. metadata_get (node_Metadata node) ''protocol'' = p)
                     (service_Nodes svc))) svcs)"
  by (induction svcs) (simp_all add: launch_nodes_eq)

lemma set_launch_nodes:
  "set (launch_nodes p svc ns) =
   {(svc', node). svc' = svc \<and> node \<in> set ns \<and> metadata_get (node_Metadata node) ''protocol'' = p}"
  by (induction ns) auto

lemma set_launch:
  "set (launch p svcs) =
   {(svc, node). svc \<in> set svcs \<and> node \<in> set (service_Nodes svc) \<and>
                 metadata_get (node_Metadata node) ''protocol'' = p}"
  by (induction svcs) (auto simp: set_launch_nodes)

text \<open>
  Claim C5. A goroutine is launched once for each node of the directory whose protocol is
  the client's, and it makes one call, failed or not: the call log of a tick is the list
  of the launched nodes, each once, so no call is made again. When the call fails,
  nothing is appended: the batch has one snapshot for each launched call that succeeded
  and none for a name and address whose call failed. The tick always ends by publishing
  the batch as the current snapshots and putting it into the ring; when no call
  succeeds, or none is launched, that batch is empty.
\<close>

theorem scrape_failed_calls:
  fixes s :: Stats and c :: Client
  shows
  "fst (goroutine c log svc node) = log @ [(service_Name svc, node_Address node)] \<and>
   launch (client_String c) (cached s) =
     concat (map (\<lambda>svc. map (Pair svc)
                    (filter (\<lambda>node. metadata_get (node_Metadata node) ''protocol'' =
                                     client_String c)
                       (service_Nodes svc))) (cached s)) \<and>
   fst (scrape_calls s c) =
     map (\<lambda>(svc, node). (service_Name svc, node_Address node))
       (launch (client_String c) (cached s)) \<and>
   snd (scrape_calls s c) = scrape s c \<and>
   set (launch (client_String c) (cached s)) =
     {(svc, node). svc \<in> set (cached s) \<and> node \<in> set (service_Nodes svc) \<and>
                   metadata_get (node_Metadata node) ''protocol'' = client_String c} \<and>
   length (snapshots (scrape s c)) =
     length (filter (\<lambda>(svc, node). \<not> isl (client_Call c (service_Name svc) (node_Address node)))
               (launch (client_String c) (cached s))) \<and>
   (\<forall>x \<in> set (snapshots (scrape s c)).
      \<not> isl (client_Call c (stats_Name (snap_Service x))
                (stats_Address (stats_Node (snap_Service x))))) \<and>
   historicalSnapshots (scrape s c) = Put (historicalSnapshots s) (snapshots (scrape s c)) \<and>
   cached (scrape s c) = cached s \<and>
   ((\<forall>(svc, node) \<in> set (launch (client_String c) (cached s)).
        isl (client_Call c (service_Name svc) (node_Address node))) \<longrightarrow>
    scrape s c = s\<lparr>snapshots := [], historicalSnapshots := Put (historicalSnapshots s) []\<rparr>)"
proof -
  have a: "snapshots (scrape s c) = snd (wait_all c (launch (client_String c) (cached s)) ([], []))"
    by (simp add: scrape_eq Let_def)
  have b: "\<not> isl (client_Call c (stats_Name (snap_Service x))
                (stats_Address (stats_Node (snap_Service x))))"
    if "x \<in> set (snapshots (scrape s c))" for x
  proof -
    from that a obtain svc node where "snd (goroutine c [] svc node) = Some x"
      using wait_all_mem by metis
    from goroutine_Some [OF this] show ?thesis by auto
  qed
  have d: "scrape s c = s\<lparr>snapshots := [], historicalSnapshots := Put (historicalSnapshots s) []\<rparr>"
    if "\<forall>(svc, node) \<in> set (launch (client_String c) (cached s)).
        isl (client_Call c (service_Name svc) (node_Address node))"
    using wait_all_all_fail [OF that, of "[]"] by (simp add: scrape_eq Let_def)
  have e: "historicalSnapshots (scrape s c) = Put (historicalSnapshots s) (snapshots (scrape s c))"
    and f: "cached (scrape s c) = cached s"
    by (simp_all add: scrape_eq Let_def)
  have g: "length (snapshots (scrape s c)) =
     length (filter (\<lambda>(svc, node). \<not> isl (client_Call c (service_Name svc) (node_Address node)))
               (launch (client_String c) (cached s)))"
    by (simp add: a wait_all_length)
  have t: "fst (goroutine c log svc node) = log @ [(service_Name svc, node_Address node)]"
    by (rule goroutine_log)
  have u: "snd (scrape_calls s c) = scrape s c"
    by (simp add: scrape_def)
  from t launch_eq [of "client_String c" "cached s"] scrape_calls_log [of s c] u
    set_launch [of "client_String c" "cached s"] g b e f d
  show ?thesis by blast
qed

theorem scrape_failed_calls_witness:
  "fst (scrape_calls state0 client_partial) =
     [(''svcA'', ''10.0.0.1:80''), (''svcA'', ''10.0.0.2:80'')] \<and>
   launch (client_String client_partial) (cached state0) = [(svc_a, node_a1), (svc_a, node_a2)] \<and>
   isl (client_Call client_partial (service_Name svc_a) (node_Address node_a2)) \<and>
   snapshots (scrape state0 client_partial) = [snap_v1] \<and>
   scrape state0 client_dead =
     state0\<lparr>snapshots := [], historicalSnapshots := \<lparr>capacity = 3, vals = [\<lparr>Value = []\<rparr>]\<rparr>\<rparr>"
proof -
  have l: "launch (client_String client_dead) (cached state0) = [(svc_a, node_a1), (svc_a, node_a2)]"
    by (simp add: client_dead_def state0_def svc_a_def node_a1_def node_a2_def metadata_get_def)
  have h: "\<forall>(svc, node) \<in> set (launch (client_String client_dead) (cached state0)).
        isl (client_Call client_dead (service_Name svc) (node_Address node))"
    unfolding l by (simp add: client_dead_def)
  from scrape_failed_calls [where s = state0 and c = client_dead] h
  have "scrape state0 client_dead =
     state0\<lparr>snapshots := [], historicalSnapshots := Put (historicalSnapshots state0) []\<rparr>"
    by blast
  moreover have "snapshots (scrape state0 client_partial) = [snap_v1]"
    by (simp add: scrape_eq Let_def client_partial_def state0_def svc_a_def node_a1_def
        node_a2_def metadata_get_def goroutine_result rsp_ok_def snap_v1_def mk_snapshot_def)
  moreover have "launch (client_String client_partial) (cached state0) = [(svc_a, node_a1), (svc_a, node_a2)]"
    by (simp add: client_partial_def state0_def svc_a_def node_a1_def node_a2_def metadata_get_def)
  moreover have "isl (client_Call client_partial (service_Name svc_a) (node_Address node_a2))"
    by (simp add: client_partial_def svc_a_def node_a2_def)
  moreover from scrape_failed_calls [where s = state0 and c = client_partial]
  have "fst (scrape_calls state0 client_partial) =
     map (\<lambda>(svc, node). (service_Name svc, node_Address node))
       (launch (client_String client_partial) (cached state0))"
    by blast
  ultimately show ?thesis
    by (simp add: Put_def state0_def ring_New_def svc_a_def node_a1_def node_a2_def)
qed

lemma scrape_snapshots:
  "snapshots (scrape s c) = snd (wait_all c (launch (client_String c) (cached s)) ([], []))"
  by (simp add: scrape_eq Let_def)

lemma wait_all_Started:
  assumes "client_Call c' = client_Call c"
  shows "map Started acc' = map Started acc \<Longrightarrow>
         map Started (snd (wait_all c' ps ([], acc'))) =
         map Started (snd (wait_all c ps ([], acc)))"
proof (induction ps arbitrary: acc acc')
  case Nil
  then show ?case by simp
next
  case (Cons p ps)
  obtain svc node where p: "p = (svc, node)" by (cases p)
  show ?case
  proof (cases "client_Call c (service_Name svc) (node_Address node)")
    case (Inl e)
    with Cons p assms show ?thesis by (simp add: goroutine_result)
  next
    case (Inr rsp)
    with p assms show ?thesis
      by (simp add: goroutine_result Let_def Cons.IH Cons.prems)
  qed
qed

lemma wait_all_Timestamp:
  assumes "time_Now c' = time_Now c"
    and "\<And>name address. isl (client_Call c' name address) = isl (client_Call c name address)"
  shows "map Timestamp acc' = map Timestamp acc \<Longrightarrow>
         map Timestamp (snd (wait_all c' ps ([], acc'))) =
         map Timestamp (snd (wait_all c ps ([], acc)))"
proof (induction ps arbitrary: acc acc')
  case Nil
  then show ?case by simp
next
  case (Cons p ps)
  obtain svc node where p: "p = (svc, node)" by (cases p)
  show ?case
  proof (cases "client_Call c (service_Name svc) (node_Address node)")
    case (Inl e)
    with assms(2) [of "service_Name svc" "node_Address node"]
    obtain e' where "client_Call c' (service_Name svc) (node_Address node) = Inl e'"
      by (cases "client_Call c' (service_Name svc) (node_Address node)") auto
    with Inl Cons p show ?thesis by (simp add: goroutine_result)
  next
    case (Inr rsp)
    with assms(2) [of "service_Name svc" "node_Address node"]
    obtain rsp' where "client_Call c' (service_Name svc) (node_Address node) = Inr rsp'"
      by (cases "client_Call c' (service_Name svc) (node_Address node)") auto
    with Inr p assms(1) show ?thesis
      by (simp add: goroutine_result Let_def Cons.IH Cons.prems)
  qed
qed

text \<open>
  Claim C6. Every snapshot of a tick carries the poller's clock reading as \<open>Timestamp\<close>
  and the \<open>started\<close> value of the node's answer as \<open>Started\<close>. Another clock leaves
  every \<open>Started\<close> as it is, and another \<open>started\<close> in the answers leaves every
  \<open>Timestamp\<close> as it is.
\<close>

theorem scrape_timestamp_started:
  "(\<forall>x \<in> set (snapshots (scrape s c)).
      Timestamp x = time_Now c (stats_Name (snap_Service x))
                      (stats_Address (stats_Node (snap_Service x))) \<and>
      (\<exists>rsp. client_Call c (stats_Name (snap_Service x))
                (stats_Address (stats_Node (snap_Service x))) = Inr rsp \<and>
              Started x = rsp_Started rsp)) \<and>
   map Started (snapshots (scrape s (c\<lparr>time_Now := t\<rparr>))) = map Started (snapshots (scrape s c)) \<and>
   map Timestamp
     (snapshots (scrape s (c\<lparr>client_Call := \<lambda>name address.
        map_sum id (\<lambda>r. r\<lparr>rsp_Started := v\<rparr>) (client_Call c name address)\<rparr>)))
   = map Timestamp (snapshots (scrape s c))"
proof -
  have b: "Timestamp x = time_Now c (stats_Name (snap_Service x))
                      (stats_Address (stats_Node (snap_Service x))) \<and>
      (\<exists>rsp. client_Call c (stats_Name (snap_Service x))
                (stats_Address (stats_Node (snap_Service x))) = Inr rsp \<and>
              Started x = rsp_Started rsp)"
    if "x \<in> set (snapshots (scrape s c))" for x
  proof -
    from that obtain svc node where "snd (goroutine c [] svc node) = Some x"
      unfolding scrape_snapshots using wait_all_mem by metis
    from goroutine_Some [OF this] show ?thesis by auto
  qed
  have c1: "map Started (snapshots (scrape s (c\<lparr>time_Now := t\<rparr>))) = map Started (snapshots (scrape s c))"
    using wait_all_Started [where c' = "c\<lparr>time_Now := t\<rparr>" and c = c and acc = "[]" and acc' = "[]"]
    by (simp add: scrape_snapshots)
  let ?c = "c\<lparr>client_Call := \<lambda>name address.
        map_sum id (\<lambda>r. r\<lparr>rsp_Started := v\<rparr>) (client_Call c name address)\<rparr>"
  have "isl (client_Call ?c name address) = isl (client_Call c name address)" for name address
    by (cases "client_Call c name address") simp_all
  then have c2: "map Timestamp (snapshots (scrape s ?c)) = map Timestamp (snapshots (scrape s c))"
    using wait_all_Timestamp [where c' = ?c and c = c and acc = "[]" and acc' = "[]"]
    by (simp add: scrape_snapshots)
  from b c1 c2 show ?thesis by blast
qed

theorem scrape_timestamp_started_witness:
  "map Timestamp (snapshots (scrape state0 client_partial)) = [1600000000] \<and>
   map Started (snapshots (scrape state0 client_partial)) = [1500000000] \<and>
   map Started (snapshots (scrape state0 (client_partial\<lparr>time_Now := \<lambda>name address. 7\<rparr>)))
     = [1500000000]"
proof -
  have "snapshots (scrape state0 client_partial) = [snap_v1]"
    by (simp add: scrape_eq Let_def client_partial_def state0_def svc_a_def node_a1_def
        node_a2_def metadata_get_def goroutine_result rsp_ok_def snap_v1_def mk_snapshot_def)
  with scrape_timestamp_started [of state0 client_partial "\<lambda>name address. 7"]
  show ?thesis by (simp add: snap_v1_def mk_snapshot_def)
qed

section \<open>Properties of the history ring\<close>

lemma capacity_Put: "capacity (Put b v) = capacity b"
  by (simp add: Put_def Let_def)

lemma Put_inv:
  assumes "ring_inv b puts"
  shows "ring_inv (Put b v) (puts @ [v])"
proof -
  from assms have vs: "map Value (vals b) = drop (length puts - capacity b) puts"
    by (simp add: ring_inv_def)
  then have len: "length (vals b) = length puts - (length puts - capacity b)"
    by (metis length_drop length_map)
  show ?thesis
  proof (cases "length puts < capacity b")
    case True
    with vs len show ?thesis by (simp add: ring_inv_def Put_def Let_def)
  next
    case False
    with len have full: "length (vals b) = capacity b" by simp
    have "map Value (tl (vals b @ [\<lparr>Value = v\<rparr>])) = tl (map Value (vals b) @ [v])"
      by (simp add: map_tl)
    also have "\<dots> = tl (drop (length puts - capacity b) (puts @ [v]))"
      using vs False by simp
    also have "\<dots> = drop (Suc (length puts - capacity b)) (puts @ [v])"
      by (metis drop_Suc tl_drop)
    also have "Suc (length puts - capacity b) = length (puts @ [v]) - capacity b"
      using False by simp
    finally show ?thesis
      using full by (simp add: ring_inv_def Put_def Let_def)
  qed
qed

lemma scan_history:
  "historicalSnapshots (snd (scan s reg)) = historicalSnapshots s \<and>
   snapshots (snd (scan s reg)) = snapshots s"
  by (simp add: scan_def split: sum.splits)

lemma scrape_history:
  "historicalSnapshots (scrape s c) = Put (historicalSnapshots s) (snapshots (scrape s c))"
  by (simp add: scrape_eq Let_def)

lemma run_inv:
  "ring_inv (historicalSnapshots s) puts \<Longrightarrow>
   ring_inv (historicalSnapshots (run s evs)) (puts @ batches s evs) \<and>
   capacity (historicalSnapshots (run s evs)) = capacity (historicalSnapshots s)"
proof (induction evs arbitrary: s puts)
  case Nil
  then show ?case by (simp add: run_def)
next
  case (Cons e evs)
  show ?case
  proof (cases e)
    case (Tick c)
    from Cons.prems have "ring_inv (historicalSnapshots (scrape s c)) (puts @ [snapshots (scrape s c)])"
      by (simp add: scrape_history Put_inv)
    from Cons.IH [OF this] Tick show ?thesis
      by (simp add: run_def scrape_history capacity_Put)
  next
    case (Refresh reg)
    from Cons.prems have "ring_inv (historicalSnapshots (snd (scan s reg))) puts"
      by (simp add: scan_history)
    from Cons.IH [OF this] Refresh show ?thesis
      by (simp add: run_def scan_history)
  qed
qed

lemma New_history:
  assumes "New reg w = Inr s0"
  shows "historicalSnapshots s0 = ring_New w"
proof -
  let ?s = "\<lparr>snapshots = [], historicalSnapshots = ring_New w, cached = []\<rparr>"
  from assms have "s0 = snd (scan ?s reg)"
    by (auto simp: New_def Let_def split: prod.splits option.splits)
  then show ?thesis by (simp add: scan_history)
qed

text \<open>
  Claim C9. After \<open>New\<close> with window size \<open>w\<close> and any sequence of scrape ticks and
  refreshes, the ring has capacity \<open>w\<close> and holds at most \<open>w\<close> batches: the last \<open>w\<close> the
  ticks published. \<open>Get n\<close> returns the last \<open>n\<close> of those; after \<open>w + 1\<close> ticks that is a
  part of the batches after the first, so the oldest batch is out of reach.
\<close>

theorem history_bounded:
  assumes "New reg w = Inr s0"
  shows "capacity (historicalSnapshots (run s0 evs)) = w \<and>
    length (vals (historicalSnapshots (run s0 evs))) \<le> w \<and>
    map Value (vals (historicalSnapshots (run s0 evs))) =
      drop (length (batches s0 evs) - w) (batches s0 evs) \<and>
    map Value (Get (historicalSnapshots (run s0 evs)) n) =
      drop (length (batches s0 evs) - min n (min w (length (batches s0 evs)))) (batches s0 evs) \<and>
    (length (batches s0 evs) = Suc w \<longrightarrow>
       map Value (Get (historicalSnapshots (run s0 evs)) n) =
         drop (w - min n w) (tl (batches s0 evs)))"
proof -
  let ?h = "historicalSnapshots (run s0 evs)" and ?bs = "batches s0 evs"
  have "ring_inv (historicalSnapshots s0) []"
    by (simp add: New_history [OF assms] ring_inv_def ring_New_def)
  from run_inv [OF this, of evs]
  have inv: "map Value (vals ?h) = drop (length ?bs - w) ?bs" and cap: "capacity ?h = w"
    by (simp_all add: ring_inv_def New_history [OF assms] ring_New_def)
  from inv have len: "length (vals ?h) = min w (length ?bs)"
    by (metis length_drop length_map diff_diff_cancel min.commute min_def nat_le_linear diff_is_0_eq diff_zero)
  have get: "map Value (Get ?h n) = drop (length ?bs - min n (min w (length ?bs))) ?bs"
  proof -
    have "map Value (Get ?h n) =
          drop (length (vals ?h) - min n (length (vals ?h))) (map Value (vals ?h))"
      by (simp add: Get_def Let_def drop_map min_def)
    also have "\<dots> = drop (min w (length ?bs) - min n (min w (length ?bs)) + (length ?bs - w)) ?bs"
      by (simp add: inv len)
    also have "min w (length ?bs) - min n (min w (length ?bs)) + (length ?bs - w) =
               length ?bs - min n (min w (length ?bs))"
      by (simp add: min_def)
    finally show ?thesis .
  qed
  have last: "map Value (Get ?h n) = drop (w - min n w) (tl ?bs)" if "length ?bs = Suc w"
  proof -
    from that get have "map Value (Get ?h n) = drop (Suc w - min n w) ?bs"
      by (simp add: min_def)
    also have "Suc w - min n w = Suc (w - min n w)" by arith
    finally show ?thesis by (simp add: drop_Suc)
  qed
  from inv cap len get last show ?thesis by simp
qed

theorem history_bounded_witness:
  "New reg_ok 1 = Inr (state0\<lparr>historicalSnapshots := ring_New 1\<rparr>) \<and>
   batches (state0\<lparr>historicalSnapshots := ring_New 1\<rparr>)
     [Tick client_partial, Refresh reg_down, Tick client_dead] = [[snap_v1], []] \<and>
   map Value (Get (historicalSnapshots (run (state0\<lparr>historicalSnapshots := ring_New 1\<rparr>)
     [Tick client_partial, Refresh reg_down, Tick client_dead])) 3600) = [[]]"
proof -
  let ?s = "state0\<lparr>historicalSnapshots := ring_New 1\<rparr>"
  have n: "New reg_ok 1 = Inr ?s"
    by (simp add: New_def reg_ok_def scan_def flatten_def state0_def svc_a_def)
  have s1: "snapshots (scrape ?s client_partial) = [snap_v1]"
    by (simp add: scrape_eq Let_def client_partial_def state0_def svc_a_def node_a1_def
        node_a2_def metadata_get_def goroutine_result rsp_ok_def snap_v1_def mk_snapshot_def)
  have c1: "cached (scrape ?s client_partial) = [svc_a]"
    by (simp add: scrape_eq Let_def state0_def)
  have l: "launch (client_String client_dead) [svc_a] = [(svc_a, node_a1), (svc_a, node_a2)]"
    by (simp add: client_dead_def svc_a_def node_a1_def node_a2_def metadata_get_def)
  have s2: "snapshots (scrape (scrape ?s client_partial) client_dead) = []"
    unfolding scrape_snapshots [of "scrape ?s client_partial"] c1 l
    by (simp add: goroutine_result client_dead_def)
  have b: "batches ?s [Tick client_partial, Refresh reg_down, Tick client_dead] = [[snap_v1], []]"
    using s1 [simplified] s2 [simplified] by (simp add: scan_def reg_down_def)
  from history_bounded [OF n, of "[Tick client_partial, Refresh reg_down, Tick client_dead]" 3600]
    n b show ?thesis by simp
qed

section \<open>Properties of the query handlers\<close>

lemma filter_str_iff: "filter_str a b \<longleftrightarrow> b = [] \<or> a = b"
  by (simp add: filter_str_def)

lemma filter_loop_eq:
  "filter_loop f acc xs =
     acc @ filter (\<lambda>x. (stats_Name f = [] \<or> stats_Name (snap_Service x) = stats_Name f) \<and>
                        (stats_Version f = [] \<or>
                         stats_Version (snap_Service x) = stats_Version f)) xs"
  by (induction xs arbitrary: acc) (simp_all add: filter_str_iff)

lemma append_entries_eq: "append_entries acc es = acc @ concat (map Value es)"
  by (induction es arbitrary: acc) simp_all

text \<open>
  Claim C3. With no service in the request, \<open>Read\<close> returns the source snapshots as they
  are. With a service \<open>f\<close>, it keeps, in order, the snapshots that pass both fields of \<open>f\<close>,
  an empty field passing every snapshot: a name alone keeps the snapshots of that name,
  a name and a version keep those that match both.
\<close>

theorem Read_filter:
  "(req_Service req = None \<longrightarrow>
      rsp_Stats (fst (snd (Read s req rsp))) = all_snapshots s req) \<and>
   (req_Service req = Some f \<longrightarrow>
      rsp_Stats (fst (snd (Read s req rsp))) =
        filter (\<lambda>x. (stats_Name f = [] \<or> stats_Name (snap_Service x) = stats_Name f) \<and>
                     (stats_Version f = [] \<or>
                      stats_Version (snap_Service x) = stats_Version f))
          (all_snapshots s req)) \<and>
   (req_Service req = Some f \<and> stats_Name f \<noteq> [] \<and> stats_Version f = [] \<longrightarrow>
      rsp_Stats (fst (snd (Read s req rsp))) =
        filter (\<lambda>x. stats_Name (snap_Service x) = stats_Name f) (all_snapshots s req)) \<and>
   (req_Service req = Some f \<and> stats_Name f \<noteq> [] \<and> stats_Version f \<noteq> [] \<longrightarrow>
      rsp_Stats (fst (snd (Read s req rsp))) =
        filter (\<lambda>x. stats_Name (snap_Service x) = stats_Name f \<and>
                     stats_Version (snap_Service x) = stats_Version f)
          (all_snapshots s req))"
  by (simp add: Read_def filter_loop_eq)

theorem Read_filter_witness:
  "rsp_Stats (fst (snd (Read state_q \<lparr>req_Service = None, req_Past = False\<rparr> \<lparr>rsp_Stats = []\<rparr>)))
     = [snap_v1, snap_v2, snap_b] \<and>
   rsp_Stats (fst (snd (Read state_q (read_req ''svcA'' [] False) \<lparr>rsp_Stats = []\<rparr>)))
     = [snap_v1, snap_v2] \<and>
   rsp_Stats (fst (snd (Read state_q (read_req ''svcA'' ''v2'' False) \<lparr>rsp_Stats = []\<rparr>)))
     = [snap_v2] \<and>
   rsp_Stats (fst (snd (Read state_q (read_req [] ''v1'' False) \<lparr>rsp_Stats = []\<rparr>)))
     = [snap_v1, snap_b]"
  using
    Read_filter [of "\<lparr>req_Service = None, req_Past = False\<rparr>" state_q "\<lparr>rsp_Stats = []\<rparr>"]
    Read_filter [of "read_req ''svcA'' [] False" state_q "\<lparr>rsp_Stats = []\<rparr>"
                    "the (req_Service (read_req ''svcA'' [] False))"]
    Read_filter [of "read_req ''svcA'' ''v2'' False" state_q "\<lparr>rsp_Stats = []\<rparr>"
                    "the (req_Service (read_req ''svcA'' ''v2'' False))"]
    Read_filter [of "read_req [] ''v1'' False" state_q "\<lparr>rsp_Stats = []\<rparr>"
                    "the (req_Service (read_req [] ''v1'' False))"]
  by (simp add: read_req_def all_snapshots_def state_q_def snap_v1_def snap_v2_def snap_b_def
      mk_snapshot_def)

text \<open>
  Claim C4. The source \<open>Read\<close> filters is chosen by \<open>Past\<close>: the current batch alone when
  it is false, and when it is true the batches of \<open>Get 3600\<close> on the ring, appended in the
  order \<open>Get\<close> returns them. The response is that source, filtered when a service is given.
\<close>

theorem Read_source:
  "(\<not> req_Past req \<longrightarrow> all_snapshots s req = snapshots s) \<and>
   (req_Past req \<longrightarrow>
      all_snapshots s req = concat (map Value (Get (historicalSnapshots s) 3600))) \<and>
   rsp_Stats (fst (snd (Read s req rsp))) =
     (case req_Service req of
        None \<Rightarrow> all_snapshots s req
      | Some f \<Rightarrow> filter_loop f [] (all_snapshots s req))"
  by (simp add: all_snapshots_def append_entries_eq Read_def split: option.split)

theorem Read_source_witness:
  "all_snapshots state_q \<lparr>req_Service = None, req_Past = False\<rparr> = [snap_v1, snap_v2, snap_b] \<and>
   all_snapshots state_q \<lparr>req_Service = None, req_Past = True\<rparr>
     = [snap_v1, snap_v1, snap_v2, snap_b] \<and>
   rsp_Stats (fst (snd (Read state_q \<lparr>req_Service = None, req_Past = True\<rparr> \<lparr>rsp_Stats = []\<rparr>)))
     = [snap_v1, snap_v1, snap_v2, snap_b]"
  using
    Read_source [of "\<lparr>req_Service = None, req_Past = False\<rparr>" state_q "\<lparr>rsp_Stats = []\<rparr>"]
    Read_source [of "\<lparr>req_Service = None, req_Past = True\<rparr>" state_q "\<lparr>rsp_Stats = []\<rparr>"]
  by (simp add: state_q_def Get_def)

text \<open>
  Claim C7. \<open>Write\<close> and \<open>Stream\<close> return the bad-request error "not implemented" of
  \<open>go.micro.debug.stats\<close> whatever the request, and leave the handler's state as it was.
\<close>

theorem Write_Stream_not_implemented:
  "Write s req rsp = (Some (BadRequest ''go.micro.debug.stats'' ''not implemented''), s) \<and>
   Stream s req' rsp' = (Some (BadRequest ''go.micro.debug.stats'' ''not implemented''), s)"
  by (simp add: Write_def Stream_def)

text \<open>
  Claim C8. \<open>Read\<close> returns no error and leaves the state as it was, so a second \<open>Read\<close>
  of the same request on the state it returns gives the same response again, also when
  it is handed the response the first one filled.
\<close>

theorem Read_idempotent:
  assumes "Read s req rsp = (err, rsp', s')"
  shows "err = None \<and> s' = s \<and> Read s' req rsp = (err, rsp', s') \<and>
         Read s' req rsp' = (err, rsp', s')"
  using assms by (auto simp: Read_def Let_def split: option.splits)

theorem Read_idempotent_witness:
  "Read state_q (read_req ''svcC'' [] True) \<lparr>rsp_Stats = [snap_b]\<rparr>
     = (None, \<lparr>rsp_Stats = []\<rparr>, state_q) \<and>
   Read state_q (read_req ''svcC'' [] True) \<lparr>rsp_Stats = []\<rparr>
     = (None, \<lparr>rsp_Stats = []\<rparr>, state_q)"
proof -
  have h: "Read state_q (read_req ''svcC'' [] True) \<lparr>rsp_Stats = [snap_b]\<rparr>
             = (None, \<lparr>rsp_Stats = []\<rparr>, state_q)"
    by (simp add: Read_def read_req_def all_snapshots_def append_entries_eq filter_loop_eq
        state_q_def Get_def snap_v1_def snap_v2_def snap_b_def mk_snapshot_def)
  from Read_idempotent [OF h] h show ?thesis by simp
qed

end
